theory Spec2Isabelle
  imports Complex_Main
begin

section \<open>The world outside the objects\<close>

text \<open>
  The two modules \<^verbatim>\<open>dosimeter.py\<close> and \<^verbatim>\<open>auxiliaries.py\<close> act on three things that
  live outside their objects: the pins of the GPIO library, the blink subprocesses, and
  what the process prints, sleeps and pings. They are the fields of \<open>world\<close>.

  Times are seconds since \<^verbatim>\<open>EPOCH_START_TIME\<close>. The source holds them as floats made by
  \<^verbatim>\<open>time_float\<close> from a \<^verbatim>\<open>datetime\<close> (whole microseconds); the model holds the same
  instants as exact rationals, on which \<open><\<close> and \<open>-\<close> are those of the instants.
\<close>

datatype error = RuntimeError | EnvironmentError

datatype msg =
    No_LED_given
  | Count_at rat
  | Is_UP string
  | Is_DOWN string

datatype effect = Print msg | Sleep rat | Ping string

record proc =
  target_pin :: nat
  interval :: rat
  alive :: bool

record world =
  gpio :: "nat \<rightharpoonup> bool"
  procs :: "proc list"
  trace :: "effect list"

text \<open>
  \<^verbatim>\<open>RPi.GPIO\<close> is a library, not code of this repository. Its part used here:
  \<open>gpio w p = Some b\<close> when channel \<open>p\<close> is set up as an output and drives level
  \<open>b\<close>; \<^verbatim>\<open>GPIO.setup(p, GPIO.OUT)\<close> sets the channel up; \<^verbatim>\<open>GPIO.output\<close> on a channel
  that is not set up raises \<^verbatim>\<open>RuntimeError\<close> (the case that \<^verbatim>\<open>LED.off\<close> of
  \<^verbatim>\<open>auxiliaries.py\<close> names "if GPIO is cleaned up too early"); \<^verbatim>\<open>GPIO.cleanup()\<close>
  releases every channel.
\<close>

definition GPIO_setup_out :: "nat \<Rightarrow> world \<Rightarrow> world" where
  "GPIO_setup_out p w =
     w\<lparr>gpio := (gpio w)(p \<mapsto> (case gpio w p of None \<Rightarrow> False | Some b \<Rightarrow> b))\<rparr>"

definition GPIO_output :: "nat \<Rightarrow> bool \<Rightarrow> world \<Rightarrow> (error + unit) \<times> world" where
  "GPIO_output p b w =
     (case gpio w p of
        None \<Rightarrow> (Inl RuntimeError, w)
      | Some _ \<Rightarrow> (Inr (), w\<lparr>gpio := (gpio w)(p \<mapsto> b)\<rparr>))"

definition GPIO_cleanup :: "world \<Rightarrow> world" where
  "GPIO_cleanup w = w\<lparr>gpio := Map.empty\<rparr>"

definition sleep :: "rat \<Rightarrow> world \<Rightarrow> world" where
  "sleep d w = w\<lparr>trace := trace w @ [Sleep d]\<rparr>"

definition print :: "msg \<Rightarrow> world \<Rightarrow> world" where
  "print m w = w\<lparr>trace := trace w @ [Print m]\<rparr>"

text \<open>The world at start: no channel set up, no process, nothing printed.\<close>

definition boot :: world where
  "boot = \<lparr>gpio = Map.empty, procs = [], trace = []\<rparr>"

text \<open>
  \<^verbatim>\<open>multiprocessing.Process\<close>: a started process is an entry of \<open>procs\<close>, and the object
  field that refers to it holds its index. \<^verbatim>\<open>terminate()\<close> ends it; on a process that has
  ended already it does nothing.
\<close>

definition terminate :: "nat \<Rightarrow> world \<Rightarrow> world" where
  "terminate i w =
     (if i < length (procs w)
      then w\<lparr>procs := (procs w)[i := (procs w ! i)\<lparr>alive := False\<rparr>]\<rparr>
      else w)"

definition Process_start :: "proc \<Rightarrow> world \<Rightarrow> nat \<times> world" where
  "Process_start q w = (length (procs w), w\<lparr>procs := procs w @ [q]\<rparr>)"

section \<open>class LED\<close>

text \<open>
  Both modules define the class. \<^verbatim>\<open>on\<close>, \<^verbatim>\<open>start_blink\<close> and \<^verbatim>\<open>_do_blink\<close> are the same
  text in both; \<^verbatim>\<open>__init__\<close> and \<^verbatim>\<open>off\<close> differ, and with \<^verbatim>\<open>off\<close> so do \<^verbatim>\<open>flash\<close> and
  \<^verbatim>\<open>stop_blink\<close>, which call it. The functions of \<^verbatim>\<open>auxiliaries.py\<close> carry the prefix
  \<open>aux\<close>, those of \<^verbatim>\<open>dosimeter.py\<close> the prefix \<open>dos\<close>.
\<close>

record led =
  pin :: nat
  blinker :: "nat option"

text \<open>\<^verbatim>\<open>auxiliaries.LED.__init__\<close>; \<open>rpi\<close> is the module's flag \<^verbatim>\<open>RPI\<close>.\<close>

definition aux_LED_init :: "bool \<Rightarrow> nat \<Rightarrow> world \<Rightarrow> (error + led) \<times> world" where
  "aux_LED_init rpi p w =
     (if rpi then (Inr \<lparr>pin = p, blinker = None\<rparr>, GPIO_setup_out p w)
      else (Inl EnvironmentError, w))"

text \<open>\<^verbatim>\<open>dosimeter.LED.__init__\<close>.\<close>

definition dos_LED_init :: "nat \<Rightarrow> world \<Rightarrow> led \<times> world" where
  "dos_LED_init p w = (\<lparr>pin = p, blinker = None\<rparr>, GPIO_setup_out p w)"

definition LED_on :: "led \<Rightarrow> world \<Rightarrow> (error + unit) \<times> world" where
  "LED_on self w = GPIO_output (pin self) True w"

text \<open>\<^verbatim>\<open>auxiliaries.LED.off\<close>: \<^verbatim>\<open>except RuntimeError: pass\<close>.\<close>

definition aux_LED_off :: "led \<Rightarrow> world \<Rightarrow> (error + unit) \<times> world" where
  "aux_LED_off self w =
     (case GPIO_output (pin self) False w of
        (Inl RuntimeError, w') \<Rightarrow> (Inr (), w')
      | (r, w') \<Rightarrow> (r, w'))"

text \<open>\<^verbatim>\<open>dosimeter.LED.off\<close>: the bare write.\<close>

definition dos_LED_off :: "led \<Rightarrow> world \<Rightarrow> (error + unit) \<times> world" where
  "dos_LED_off self w = GPIO_output (pin self) False w"

definition aux_LED_flash :: "led \<Rightarrow> world \<Rightarrow> (error + unit) \<times> world" where
  "aux_LED_flash self w =
     (case LED_on self w of
        (Inl e, w') \<Rightarrow> (Inl e, w')
      | (Inr _, w') \<Rightarrow> aux_LED_off self (sleep (5 / 1000) w'))"

definition dos_LED_flash :: "led \<Rightarrow> world \<Rightarrow> (error + unit) \<times> world" where
  "dos_LED_flash self w =
     (case LED_on self w of
        (Inl e, w') \<Rightarrow> (Inl e, w')
      | (Inr _, w') \<Rightarrow> dos_LED_off self (sleep (5 / 1000) w'))"

text \<open>
  \<^verbatim>\<open>start_blink\<close>: the process runs \<^verbatim>\<open>_do_blink(interval)\<close> on this LED's pin, forever
  until terminated; the model keeps its target, its period and whether it still runs.
\<close>

definition LED_start_blink :: "rat \<Rightarrow> led \<Rightarrow> world \<Rightarrow> led \<times> world" where
  "LED_start_blink iv self w =
     (let w1 = (case blinker self of Some i \<Rightarrow> terminate i w | None \<Rightarrow> w);
          (i, w2) = Process_start \<lparr>target_pin = pin self, interval = iv, alive = True\<rparr> w1
      in (self\<lparr>blinker := Some i\<rparr>, w2))"

definition aux_LED_stop_blink :: "led \<Rightarrow> world \<Rightarrow> (error + unit) \<times> world" where
  "aux_LED_stop_blink self w =
     aux_LED_off self (case blinker self of Some i \<Rightarrow> terminate i w | None \<Rightarrow> w)"

definition dos_LED_stop_blink :: "led \<Rightarrow> world \<Rightarrow> (error + unit) \<times> world" where
  "dos_LED_stop_blink self w =
     dos_LED_off self (case blinker self of Some i \<Rightarrow> terminate i w | None \<Rightarrow> w)"

text \<open>The blink processes that still run on pin \<open>p\<close>.\<close>

definition active_blinks :: "nat \<Rightarrow> world \<Rightarrow> proc list" where
  "active_blinks p w = filter (\<lambda>q. alive q \<and> target_pin q = p) (procs w)"

text \<open>
  What every LED made by \<^verbatim>\<open>__init__\<close> and driven through its methods satisfies: its
  \<^verbatim>\<open>blinker\<close> refers to a started process, and no other process still blinks its pin.
\<close>

definition owns_blinks :: "led \<Rightarrow> world \<Rightarrow> bool" where
  "owns_blinks self w =
     ((case blinker self of
         None \<Rightarrow> True
       | Some i \<Rightarrow> i < length (procs w) \<and> target_pin (procs w ! i) = pin self) \<and>
      (\<forall>j < length (procs w).
         alive (procs w ! j) \<and> target_pin (procs w ! j) = pin self \<longrightarrow> blinker self = Some j))"

section \<open>class Dosimeter\<close>

record dosimeter =
  counts :: "rat list"
  accum_time :: rat
  LED :: "led option"

text \<open>
  \<^verbatim>\<open>datetime.datetime.now()\<close> is read anew at every call. A function takes the readings
  it will get as \<open>clock\<close>: \<open>clock k\<close> is the reading of its \<open>k\<close>-th call, counted from 0.
  \<open>frozen_clock now\<close> reads \<open>now\<close> every time: one instant.
\<close>

definition frozen_clock :: "rat \<Rightarrow> nat \<Rightarrow> rat" where
  "frozen_clock now k = now"

text \<open>
  \<^verbatim>\<open>count\<close>: the first reading is printed, the second (\<^verbatim>\<open>now_float()\<close>) is appended.
\<close>

definition Dosimeter_count ::
    "(nat \<Rightarrow> rat) \<Rightarrow> dosimeter \<Rightarrow> world \<Rightarrow> (error + unit) \<times> dosimeter \<times> world" where
  "Dosimeter_count clock self w =
     (let now = clock 0;
          self1 = self\<lparr>counts := counts self @ [clock 1]\<rparr>;
          w1 = print (Count_at now) w
      in case LED self1 of
           None \<Rightarrow> (Inr (), self1, w1)
         | Some l \<Rightarrow> (case dos_LED_flash l w1 of (r, w2) \<Rightarrow> (r, self1, w2)))"

text \<open>
  The loop of \<^verbatim>\<open>check_accumulation\<close> on the deque: \<open>k\<close> counts the clock readings made
  so far.
\<close>

fun check_accumulation_loop :: "(nat \<Rightarrow> rat) \<Rightarrow> rat \<Rightarrow> nat \<Rightarrow> rat list \<Rightarrow> rat list" where
  "check_accumulation_loop clock d k [] = []"
| "check_accumulation_loop clock d k (c # cs) =
     (if c > clock k - d then c # cs
      else check_accumulation_loop clock d (Suc k) cs)"

definition Dosimeter_check_accumulation :: "(nat \<Rightarrow> rat) \<Rightarrow> dosimeter \<Rightarrow> dosimeter" where
  "Dosimeter_check_accumulation clock self =
     self\<lparr>counts := check_accumulation_loop clock (accum_time self) 0 (counts self)\<rparr>"

text \<open>\<^verbatim>\<open>get_all_counts\<close> returns the deque itself, not a copy: its elements at the return.\<close>

definition Dosimeter_get_all_counts :: "(nat \<Rightarrow> rat) \<Rightarrow> dosimeter \<Rightarrow> rat list \<times> dosimeter" where
  "Dosimeter_get_all_counts clock self =
     (let self1 = Dosimeter_check_accumulation clock self in (counts self1, self1))"

definition Dosimeter_cleanup :: "world \<Rightarrow> world" where
  "Dosimeter_cleanup w = GPIO_cleanup w"

text \<open>
  \<^verbatim>\<open>Dosimeter.__init__\<close>. The signal pin is set up as an input and given its
  interrupt; \<open>gpio\<close> holds output channels only, so neither shows in the world.
\<close>

definition Dosimeter_init :: "led option \<Rightarrow> rat \<Rightarrow> world \<Rightarrow> dosimeter \<times> world" where
  "Dosimeter_init counts_LED max_accumulation_time_s w =
     (\<lparr>counts = [], accum_time = max_accumulation_time_s, LED = counts_LED\<rparr>,
      (if counts_LED = None then print No_LED_given w else w))"

section \<open>class DosimeterTimer\<close>

record dosimeter_timer =
  network_LED :: led
  power_LED :: led
  counts_LED :: led
  dosimeter :: dosimeter
  DT :: rat
  running :: bool

definition DosimeterTimer_init ::
    "nat \<Rightarrow> nat \<Rightarrow> nat \<Rightarrow> rat \<Rightarrow> world \<Rightarrow> (error + dosimeter_timer) \<times> world" where
  "DosimeterTimer_init network_LED_pin power_LED_pin counts_LED_pin time_interval_s w =
     (let (nl, w1) = dos_LED_init network_LED_pin w;
          (pl, w2) = dos_LED_init power_LED_pin w1;
          (cl, w3) = dos_LED_init counts_LED_pin w2
      in case LED_on pl w3 of
           (Inl e, w4) \<Rightarrow> (Inl e, w4)
         | (Inr _, w4) \<Rightarrow>
             (let (d, w5) = Dosimeter_init (Some cl) 3600 w4
              in (Inr \<lparr>network_LED = nl, power_LED = pl, counts_LED = cl, dosimeter = d,
                       DT = time_interval_s, running = False\<rparr>, w5)))"

text \<open>
  \<^verbatim>\<open>start\<close>: \<^verbatim>\<open>while self.running: pass; sleep(10)\<close>. Nothing in the loop changes
  \<^verbatim>\<open>running\<close>, so the loop does not end by itself; \<open>n\<close> is the number of passes observed.
\<close>

fun DosimeterTimer_loop :: "nat \<Rightarrow> dosimeter_timer \<Rightarrow> world \<Rightarrow> dosimeter_timer \<times> world" where
  "DosimeterTimer_loop 0 self w = (self, w)"
| "DosimeterTimer_loop (Suc n) self w =
     (if running self then DosimeterTimer_loop n self (sleep 10 w) else (self, w))"

definition DosimeterTimer_start :: "nat \<Rightarrow> dosimeter_timer \<Rightarrow> world \<Rightarrow> dosimeter_timer \<times> world" where
  "DosimeterTimer_start n self w = DosimeterTimer_loop n (self\<lparr>running := True\<rparr>) w"

definition DosimeterTimer_stop :: "dosimeter_timer \<Rightarrow> dosimeter_timer" where
  "DosimeterTimer_stop self = self\<lparr>running := False\<rparr>"

section \<open>class NetworkStatus\<close>

record network_status =
  hostname :: string
  up_interval_s :: rat
  down_interval_s :: rat
  led :: "led option"
  blink_period_s :: rat
  v :: int
  is_up :: bool

text \<open>
  \<^verbatim>\<open>__init__\<close> also starts the process that runs \<^verbatim>\<open>_do_pings\<close>; that loop is
  \<open>NetworkStatus_do_pings\<close> below.
\<close>

definition NetworkStatus_init ::
    "string \<Rightarrow> rat \<Rightarrow> rat \<Rightarrow> led option \<Rightarrow> int \<Rightarrow> network_status" where
  "NetworkStatus_init h up down network_led verbosity =
     \<lparr>hostname = h, up_interval_s = up, down_interval_s = down, led = network_led,
      blink_period_s = 3 / 2, v = verbosity, is_up = False\<rparr>"

text \<open>The \<^verbatim>\<open>vprint\<close> that \<^verbatim>\<open>set_verbosity\<close> gives the instance.\<close>

definition vprint :: "network_status \<Rightarrow> int \<Rightarrow> msg \<Rightarrow> world \<Rightarrow> world" where
  "vprint self level m w = (if v self \<ge> level then print m w else w)"

text \<open>
  \<^verbatim>\<open>_ping\<close>: the exit status of one \<^verbatim>\<open>ping -c 1\<close> is the environment's answer
  \<open>response\<close>.
\<close>

definition NetworkStatus_ping :: "int \<Rightarrow> network_status \<Rightarrow> world \<Rightarrow> int \<times> world" where
  "NetworkStatus_ping response self w = (response, w\<lparr>trace := trace w @ [Ping (hostname self)]\<rparr>)"

definition NetworkStatus_update ::
    "int \<Rightarrow> network_status \<Rightarrow> world \<Rightarrow> (error + unit) \<times> network_status \<times> world" where
  "NetworkStatus_update answer self w0 =
     (let (response, w) = NetworkStatus_ping answer self w0 in
      if response = 0 then
        (let self1 = self\<lparr>is_up := True\<rparr> in
         case led self1 of
           None \<Rightarrow> (Inr (), self1, vprint self1 2 (Is_UP (hostname self1)) w)
         | Some l \<Rightarrow>
             (case (if blinker l \<noteq> None then aux_LED_stop_blink l w else (Inr (), w)) of
                (Inl e, w1) \<Rightarrow> (Inl e, self1, w1)
              | (Inr _, w1) \<Rightarrow>
                  (case LED_on l w1 of
                     (Inl e, w2) \<Rightarrow> (Inl e, self1, w2)
                   | (Inr _, w2) \<Rightarrow>
                       (Inr (), self1, vprint self1 2 (Is_UP (hostname self1)) w2))))
      else
        (let self1 = self\<lparr>is_up := False\<rparr> in
         case led self1 of
           None \<Rightarrow> (Inr (), self1, vprint self1 1 (Is_DOWN (hostname self1)) w)
         | Some l \<Rightarrow>
             (case LED_start_blink (blink_period_s self1) l w of
                (l1, w1) \<Rightarrow>
                  (Inr (), self1\<lparr>led := Some l1\<rparr>,
                   vprint self1 1 (Is_DOWN (hostname self1)) w1))))"

text \<open>
  \<^verbatim>\<open>_do_pings\<close>: \<^verbatim>\<open>while True\<close>. The list holds the answers of the pings still to
  come; the run is observed until they are used up, or until \<^verbatim>\<open>update\<close> raises, which
  ends the loop.
\<close>

fun NetworkStatus_do_pings ::
    "int list \<Rightarrow> network_status \<Rightarrow> world \<Rightarrow> (error + unit) \<times> network_status \<times> world" where
  "NetworkStatus_do_pings [] self w = (Inr (), self, w)"
| "NetworkStatus_do_pings (a # as) self w =
     (case NetworkStatus_update a self w of
        (Inl e, self1, w1) \<Rightarrow> (Inl e, self1, w1)
      | (Inr _, self1, w1) \<Rightarrow>
          NetworkStatus_do_pings as self1
            (if is_up self1 then sleep (up_interval_s self1) w1
             else sleep (down_interval_s self1) w1))"

definition NetworkStatus_cleanup :: "world \<Rightarrow> world" where
  "NetworkStatus_cleanup w = GPIO_cleanup w"

text \<open>The LED handed to \<^verbatim>\<open>NetworkStatus\<close>, if any, has its channel set up.\<close>

definition led_live :: "led option \<Rightarrow> world \<Rightarrow> bool" where
  "led_live l w = (case l of None \<Rightarrow> True | Some x \<Rightarrow> gpio w (pin x) \<noteq> None)"

text \<open>The pings and sleeps of a trace, in order.\<close>

fun is_timing :: "effect \<Rightarrow> bool" where
  "is_timing (Print _) = False"
| "is_timing (Sleep _) = True"
| "is_timing (Ping _) = True"

section \<open>Retention trimming\<close>

text \<open>
  At one instant \<open>now\<close> the loop pops the events \<open>e \<le> now - d\<close> off the front and stops
  at the first later one.
\<close>

lemma loop_split:
  "\<exists>r. xs = r @ check_accumulation_loop (frozen_clock now) d k xs \<and> (\<forall>e\<in>set r. e \<le> now - d)"
proof (induction xs arbitrary: k)
  case Nil
  show ?case by simp
next
  case (Cons c cs)
  show ?case
  proof (cases "c > now - d")
    case True
    then show ?thesis by (simp add: frozen_clock_def)
  next
    case False
    from Cons.IH [of "Suc k"] obtain r where
      r: "cs = r @ check_accumulation_loop (frozen_clock now) d (Suc k) cs" "\<forall>e\<in>set r. e \<le> now - d"
      by blast
    from False r(2) have "\<forall>e\<in>set (c # r). e \<le> now - d" by simp
    moreover from False r(1)
    have "c # cs = (c # r) @ check_accumulation_loop (frozen_clock now) d k (c # cs)"
      by (simp add: frozen_clock_def)
    ultimately show ?thesis by blast
  qed
qed

lemma loop_sorted_fresh:
  "sorted xs \<Longrightarrow> \<forall>e\<in>set (check_accumulation_loop (frozen_clock now) d k xs). e > now - d"
  by (induction xs arbitrary: k) (auto simp: frozen_clock_def)



lemma loop_sorted: "sorted xs \<Longrightarrow> sorted (check_accumulation_loop clock d k xs)"
  by (induction xs arbitrary: k) auto

text \<open>
  With a clock that moves on between the readings of one call, but not backwards, a
  time-ordered window is split the same way at the last reading \<open>clock j\<close>.
\<close>

lemma loop_moving_clock:
  assumes "sorted xs" and "\<And>i j. i \<le> j \<Longrightarrow> clock i \<le> clock j"
  shows "\<exists>r j. k \<le> j \<and> xs = r @ check_accumulation_loop clock d k xs \<and>
           (\<forall>e\<in>set r. e \<le> clock j - d) \<and>
           (\<forall>e\<in>set (check_accumulation_loop clock d k xs). e > clock j - d)"
  using assms(1)
proof (induction xs arbitrary: k)
  case Nil
  show ?case by auto
next
  case (Cons c cs)
  show ?case
  proof (cases "c > clock k - d")
    case True
    from Cons.prems have "\<forall>e\<in>set (c # cs). c \<le> e" by auto
    with True have "\<forall>e\<in>set (c # cs). e > clock k - d" by fastforce
    with True have "k \<le> k \<and> c # cs = [] @ check_accumulation_loop clock d k (c # cs) \<and>
        (\<forall>e\<in>set []. e \<le> clock k - d) \<and>
        (\<forall>e\<in>set (check_accumulation_loop clock d k (c # cs)). e > clock k - d)"
      by simp
    then show ?thesis by blast
  next
    case False
    from Cons.prems have "sorted cs" by simp
    from Cons.IH [OF this, of "Suc k"] obtain r j where
      j: "Suc k \<le> j" and r: "cs = r @ check_accumulation_loop clock d (Suc k) cs"
      and old: "\<forall>e\<in>set r. e \<le> clock j - d"
      and fresh: "\<forall>e\<in>set (check_accumulation_loop clock d (Suc k) cs). e > clock j - d"
      by blast
    from j assms(2) [of k j] have "clock k \<le> clock j" by simp
    with False have "c \<le> clock j - d" by simp
    with old have "\<forall>e\<in>set (c # r). e \<le> clock j - d" by simp
    moreover from False r have "c # cs = (c # r) @ check_accumulation_loop clock d k (c # cs)"
      by simp
    moreover from False fresh
    have "\<forall>e\<in>set (check_accumulation_loop clock d k (c # cs)). e > clock j - d" by simp
    moreover from j have "k \<le> j" by simp
    ultimately show ?thesis by blast
  qed
qed

text \<open>
  C1, as the code has it. For a window with non-decreasing timestamps, a retention
  duration \<open>accum_time s\<close> and one instant \<open>now\<close>, \<^verbatim>\<open>check_accumulation\<close> splits the window
  into a removed front and a remaining rest: every remaining event has
  \<open>now - e < accum_time s\<close>, strictly, and every removed event had
  \<open>now - e \<ge> accum_time s\<close>. The comparison of the source is
  \<^verbatim>\<open>counts[0] > time_float(now - accum_time)\<close>, so an event whose age is exactly the
  duration is removed; the test of the source asserts the same strict bound,
  \<^verbatim>\<open>now_float() - d.get_all_counts()[0] < test_accum_time\<close>.
\<close>

theorem check_accumulation_trims_window:
  assumes "sorted (counts s)"
  shows "\<exists>removed.
           counts s = removed @ counts (Dosimeter_check_accumulation (frozen_clock now) s) \<and>
           (\<forall>e\<in>set (counts (Dosimeter_check_accumulation (frozen_clock now) s)).
              now - e < accum_time s) \<and>
           (\<forall>e\<in>set removed. now - e \<ge> accum_time s)"
proof -
  obtain r where r: "counts s = r @ check_accumulation_loop (frozen_clock now) (accum_time s) 0 (counts s)"
      "\<forall>e\<in>set r. e \<le> now - accum_time s"
    using loop_split by blast
  have "\<forall>e\<in>set (check_accumulation_loop (frozen_clock now) (accum_time s) 0 (counts s)).
          now - e < accum_time s"
  proof
    fix e
    assume "e \<in> set (check_accumulation_loop (frozen_clock now) (accum_time s) 0 (counts s))"
    with loop_sorted_fresh [OF assms, of now "accum_time s" 0]
    have "e > now - accum_time s" by blast
    then show "now - e < accum_time s" by linarith
  qed
  moreover have "\<forall>e\<in>set r. now - e \<ge> accum_time s"
  proof
    fix e
    assume "e \<in> set r"
    with r(2) have "e \<le> now - accum_time s" by blast
    then show "now - e \<ge> accum_time s" by linarith
  qed
  ultimately show ?thesis using r(1) by (auto simp: Dosimeter_check_accumulation_def)
qed

text \<open>The window 0, 10, 40 at instant 40 with 30 s of retention: 0 and 10 go, 40 stays.\<close>

theorem check_accumulation_trims_window_witness:
  "sorted [0, 10, 40 :: rat] \<and>
   (\<exists>removed.
      [0, 10, 40] = removed @ counts (Dosimeter_check_accumulation (frozen_clock 40)
                      \<lparr>counts = [0, 10, 40], accum_time = 30, LED = None\<rparr>) \<and>
      (\<forall>e\<in>set (counts (Dosimeter_check_accumulation (frozen_clock 40)
                      \<lparr>counts = [0, 10, 40], accum_time = 30, LED = None\<rparr>)). 40 - e < 30) \<and>
      (\<forall>e\<in>set removed. 40 - e \<ge> (30::rat)))"
  using check_accumulation_trims_window
    [of "\<lparr>counts = [0, 10, 40], accum_time = 30, LED = None\<rparr>" 40]
  by simp

text \<open>
  An event recorded at 0, trimmed at instant 30 with 30 s of retention: its age is
  exactly the duration, and it is removed.
\<close>

theorem age_exactly_D_counterexample:
  "counts (Dosimeter_check_accumulation (frozen_clock 30)
             \<lparr>counts = [0], accum_time = 30, LED = None\<rparr>) = [] \<and>
   (30::rat) - 0 \<le> 30"
  by (simp add: Dosimeter_check_accumulation_def frozen_clock_def)


text \<open>
  The window stays time-ordered: \<^verbatim>\<open>count\<close> appends a clock reading, which is no
  earlier than the readings appended before it as long as the clock does not run
  backwards, and the trim only pops the front.
\<close>

lemma count_sorted:
  "sorted (counts s) \<Longrightarrow> \<forall>e\<in>set (counts s). e \<le> clock 1 \<Longrightarrow>
   sorted (counts (fst (snd (Dosimeter_count clock s w))))"
  by (auto simp: Dosimeter_count_def Let_def sorted_append split: option.splits prod.splits)

lemma check_accumulation_sorted:
  "sorted (counts s) \<Longrightarrow> sorted (counts (Dosimeter_check_accumulation clock s))"
  by (simp add: Dosimeter_check_accumulation_def loop_sorted)


text \<open>
  A window that is not time-ordered arises when the clock is set back between two
  events: counts at 10 and then at 0.
\<close>

lemma clock_set_back_window:
  "counts (fst (snd (Dosimeter_count (frozen_clock 0)
     (fst (snd (Dosimeter_count (frozen_clock 10) (fst (Dosimeter_init None 15 boot))
                  (snd (Dosimeter_init None 15 boot)))))
     (snd (snd (Dosimeter_count (frozen_clock 10) (fst (Dosimeter_init None 15 boot))
                  (snd (Dosimeter_init None 15 boot)))))))) = [10, 0]"
  by (simp add: Dosimeter_count_def Dosimeter_init_def frozen_clock_def Let_def)

text \<open>
  On that window, with 15 s of retention and read at 20, the event of 10 is fresh and
  stops the trim; the event of 0 behind it is returned, 20 s old.
\<close>

theorem stale_behind_fresh_counterexample:
  "fst (Dosimeter_get_all_counts (frozen_clock 20)
          \<lparr>counts = [10, 0], accum_time = 15, LED = None\<rparr>) = [10, 0] \<and>
   (20::rat) - 0 > 15"
  by (simp add: Dosimeter_get_all_counts_def Dosimeter_check_accumulation_def frozen_clock_def)

text \<open>
  C9, as the code has it. \<^verbatim>\<open>get_all_counts\<close> trims before it returns: what it returns
  is the window that \<^verbatim>\<open>check_accumulation\<close> leaves, with no trim by anyone else. On a
  time-ordered window the returned sequence, at the instant of the call, holds no event
  older than the retention duration. The trim stops at the first fresh event, so the
  order of the window is what the bound rests on.
\<close>

theorem get_all_counts_trims:
  "fst (Dosimeter_get_all_counts clock s) = counts (Dosimeter_check_accumulation clock s) \<and>
   (sorted (counts s) \<longrightarrow>
      (\<forall>e\<in>set (fst (Dosimeter_get_all_counts (frozen_clock now) s)).
         \<not> now - e > accum_time s))"
proof -
  have "\<not> now - e > accum_time s"
    if "sorted (counts s)"
      and "e \<in> set (check_accumulation_loop (frozen_clock now) (accum_time s) 0 (counts s))" for e
  proof -
    from loop_sorted_fresh [OF that(1), of now "accum_time s" 0] that(2)
    have "e > now - accum_time s" by blast
    then show ?thesis by linarith
  qed
  then show ?thesis
    by (auto simp: Dosimeter_get_all_counts_def Dosimeter_check_accumulation_def Let_def)
qed

text \<open>
  Events at 0 and 35 with 30 s of retention, read at 36: the event of 35 is returned
  alone, one second old.
\<close>

theorem get_all_counts_trims_witness:
  "sorted [0, 35 :: rat] \<and>
   fst (Dosimeter_get_all_counts (frozen_clock 36)
          \<lparr>counts = [0, 35], accum_time = 30, LED = None\<rparr>) = [35] \<and>
   \<not> (36::rat) - 35 > 30"
  using get_all_counts_trims
    [of "frozen_clock 36" "\<lparr>counts = [0, 35], accum_time = 30, LED = None\<rparr>" 36]
  by (simp add: Dosimeter_check_accumulation_def frozen_clock_def)

section \<open>LED: construction and writes\<close>

text \<open>
  C10. \<^verbatim>\<open>LED.__init__\<close> of \<^verbatim>\<open>auxiliaries.py\<close> raises \<^verbatim>\<open>EnvironmentError\<close> when the
  GPIO library is not there (\<^verbatim>\<open>RPI\<close> false) and changes nothing; with the library it
  returns an LED whose channel is set up and whose \<^verbatim>\<open>blinker\<close> is \<^verbatim>\<open>None\<close>. So an LED
  that was constructed at all has both.
\<close>

theorem aux_LED_init_needs_rpi:
  "aux_LED_init False p w = (Inl EnvironmentError, w) \<and>
   fst (aux_LED_init True p w) = Inr \<lparr>pin = p, blinker = None\<rparr> \<and>
   gpio (snd (aux_LED_init True p w)) p \<noteq> None \<and>
   (case fst (aux_LED_init rpi p w) of
      Inl e \<Rightarrow> e = EnvironmentError \<and> \<not> rpi
    | Inr l \<Rightarrow> rpi \<and> pin l = p \<and> blinker l = None \<and>
               gpio (snd (aux_LED_init rpi p w)) (pin l) \<noteq> None)"
  by (simp add: aux_LED_init_def GPIO_setup_out_def)

text \<open>
  After \<^verbatim>\<open>GPIO.cleanup()\<close> the writes raise: \<^verbatim>\<open>on\<close> and \<^verbatim>\<open>flash\<close> of \<^verbatim>\<open>auxiliaries.py\<close>,
  and \<^verbatim>\<open>off\<close> of \<^verbatim>\<open>dosimeter.py\<close>, on an LED of pin 20 that had been set up.
\<close>

theorem LED_write_after_teardown_counterexample:
  "fst (LED_on \<lparr>pin = 20, blinker = None\<rparr> (GPIO_cleanup (snd (aux_LED_init True 20 boot))))
     = Inl RuntimeError \<and>
   fst (aux_LED_flash \<lparr>pin = 20, blinker = None\<rparr> (GPIO_cleanup (snd (aux_LED_init True 20 boot))))
     = Inl RuntimeError \<and>
   fst (dos_LED_off \<lparr>pin = 20, blinker = None\<rparr> (GPIO_cleanup (snd (dos_LED_init 20 boot))))
     = Inl RuntimeError"
  by (simp add: LED_on_def aux_LED_flash_def dos_LED_off_def GPIO_output_def GPIO_cleanup_def)

text \<open>
  C8, as the code has it. The one guarded write is \<^verbatim>\<open>off\<close> of \<^verbatim>\<open>auxiliaries.py\<close>: after
  the teardown it returns normally and leaves the world as it was; it returns normally
  in every world, and where the channel is not set up it changes nothing.
\<close>

theorem aux_LED_off_swallows:
  "aux_LED_off l (GPIO_cleanup w) = (Inr (), GPIO_cleanup w) \<and>
   fst (aux_LED_off l w) = Inr () \<and>
   (gpio w (pin l) = None \<longrightarrow> snd (aux_LED_off l w) = w)"
  by (simp add: aux_LED_off_def GPIO_output_def GPIO_cleanup_def split: option.splits)

theorem aux_LED_off_swallows_witness:
  "gpio (GPIO_cleanup (snd (aux_LED_init True 20 boot))) 20 = None \<and>
   aux_LED_off \<lparr>pin = 20, blinker = None\<rparr> (GPIO_cleanup (snd (aux_LED_init True 20 boot)))
     = (Inr (), GPIO_cleanup (snd (aux_LED_init True 20 boot)))"
  using aux_LED_off_swallows [of "\<lparr>pin = 20, blinker = None\<rparr>" "snd (aux_LED_init True 20 boot)"]
  by (simp add: GPIO_cleanup_def)

text \<open>
  An LED of pin 20 set blinking with period 1, then \<^verbatim>\<open>on()\<close>: the pin is driven high and
  the blink process still runs.
\<close>

theorem on_keeps_blink_counterexample:
  "active_blinks 20
     (snd (LED_on (fst (LED_start_blink 1 \<lparr>pin = 20, blinker = None\<rparr> (snd (aux_LED_init True 20 boot))))
                  (snd (LED_start_blink 1 \<lparr>pin = 20, blinker = None\<rparr> (snd (aux_LED_init True 20 boot))))))
     = [\<lparr>target_pin = 20, interval = 1, alive = True\<rparr>] \<and>
   gpio
     (snd (LED_on (fst (LED_start_blink 1 \<lparr>pin = 20, blinker = None\<rparr> (snd (aux_LED_init True 20 boot))))
                  (snd (LED_start_blink 1 \<lparr>pin = 20, blinker = None\<rparr> (snd (aux_LED_init True 20 boot))))))
     20 = Some True"
  by (simp add: active_blinks_def LED_on_def LED_start_blink_def Process_start_def aux_LED_init_def
        GPIO_setup_out_def GPIO_output_def boot_def Let_def)

text \<open>
  C3, as the code has it. \<^verbatim>\<open>on\<close> and \<^verbatim>\<open>off\<close> write the level and do nothing else: the
  processes are as before the call, so a blink task that ran before it runs after it,
  and no field of the LED is touched. On a channel that is set up the write succeeds
  and the pin holds the requested level. Ending the blink is left to the caller:
  \<^verbatim>\<open>_do_blink\<close> itself calls \<^verbatim>\<open>on\<close> and \<^verbatim>\<open>off\<close>, and \<^verbatim>\<open>NetworkStatus.update\<close> calls
  \<^verbatim>\<open>stop_blink\<close> before \<^verbatim>\<open>on\<close>.
\<close>

theorem on_off_only_write:
  "procs (snd (LED_on l w)) = procs w \<and>
   procs (snd (aux_LED_off l w)) = procs w \<and>
   procs (snd (dos_LED_off l w)) = procs w \<and>
   active_blinks p (snd (LED_on l w)) = active_blinks p w \<and>
   active_blinks p (snd (aux_LED_off l w)) = active_blinks p w \<and>
   active_blinks p (snd (dos_LED_off l w)) = active_blinks p w \<and>
   (gpio w (pin l) \<noteq> None \<longrightarrow>
      LED_on l w = (Inr (), w\<lparr>gpio := (gpio w)(pin l \<mapsto> True)\<rparr>) \<and>
      aux_LED_off l w = (Inr (), w\<lparr>gpio := (gpio w)(pin l \<mapsto> False)\<rparr>) \<and>
      dos_LED_off l w = (Inr (), w\<lparr>gpio := (gpio w)(pin l \<mapsto> False)\<rparr>))"
  by (auto simp: LED_on_def aux_LED_off_def dos_LED_off_def GPIO_output_def active_blinks_def
        split: option.splits)

theorem on_off_only_write_witness:
  "gpio (snd (LED_start_blink 1 \<lparr>pin = 20, blinker = None\<rparr> (snd (aux_LED_init True 20 boot)))) 20 \<noteq> None \<and>
   fst (LED_on \<lparr>pin = 20, blinker = Some 0\<rparr>
          (snd (LED_start_blink 1 \<lparr>pin = 20, blinker = None\<rparr> (snd (aux_LED_init True 20 boot))))) = Inr () \<and>
   gpio (snd (LED_on \<lparr>pin = 20, blinker = Some 0\<rparr>
          (snd (LED_start_blink 1 \<lparr>pin = 20, blinker = None\<rparr> (snd (aux_LED_init True 20 boot)))))) 20 = Some True \<and>
   procs (snd (LED_on \<lparr>pin = 20, blinker = Some 0\<rparr>
          (snd (LED_start_blink 1 \<lparr>pin = 20, blinker = None\<rparr> (snd (aux_LED_init True 20 boot))))))
     = [\<lparr>target_pin = 20, interval = 1, alive = True\<rparr>]"
  using on_off_only_write [of "\<lparr>pin = 20, blinker = Some 0\<rparr>"
      "snd (LED_start_blink 1 \<lparr>pin = 20, blinker = None\<rparr> (snd (aux_LED_init True 20 boot)))"]
  by (simp add: LED_start_blink_def Process_start_def aux_LED_init_def
        GPIO_setup_out_def boot_def Let_def)

section \<open>LED: blinking\<close>

lemma dead_proc_unchanged: "\<not> alive q \<Longrightarrow> q\<lparr>alive := False\<rparr> = q"
  by (cases q) simp

lemma active_blinks_empty_iff:
  "active_blinks p w = [] \<longleftrightarrow>
     (\<forall>j < length (procs w). \<not> (alive (procs w ! j) \<and> target_pin (procs w ! j) = p))"
proof -
  have "active_blinks p w = [] \<longleftrightarrow> (\<forall>q\<in>set (procs w). \<not> (alive q \<and> target_pin q = p))"
    by (simp add: active_blinks_def filter_empty_conv)
  also have "\<dots> \<longleftrightarrow> (\<forall>j < length (procs w). \<not> (alive (procs w ! j) \<and> target_pin (procs w ! j) = p))"
    by (simp only: all_set_conv_all_nth)
  finally show ?thesis .
qed

lemma terminate_blinker_clears:
  assumes "owns_blinks l w"
  shows "active_blinks (pin l) (case blinker l of Some i \<Rightarrow> terminate i w | None \<Rightarrow> w) = []"
proof (cases "blinker l")
  case None
  with assms show ?thesis by (auto simp: active_blinks_empty_iff owns_blinks_def)
next
  case (Some i)
  with assms have i: "i < length (procs w)"
    and own: "\<And>j. j < length (procs w) \<Longrightarrow>
               alive (procs w ! j) \<and> target_pin (procs w ! j) = pin l \<Longrightarrow> j = i"
    by (auto simp: owns_blinks_def)
  have "\<not> (alive (procs (terminate i w) ! j) \<and> target_pin (procs (terminate i w) ! j) = pin l)"
    if "j < length (procs (terminate i w))" for j
  proof (cases "j = i")
    case True
    with i show ?thesis by (simp add: terminate_def)
  next
    case False
    with that i own [of j] show ?thesis by (auto simp: terminate_def)
  qed
  with Some show ?thesis by (simp add: active_blinks_empty_iff)
qed

lemma terminate_gpio [simp]: "gpio (terminate i w) = gpio w"
  and terminate_trace [simp]: "trace (terminate i w) = trace w"
  and terminate_length [simp]: "length (procs (terminate i w)) = length (procs w)"
  by (simp_all add: terminate_def)

lemma start_blink_result:
  assumes "owns_blinks l w"
  shows "active_blinks (pin l) (snd (LED_start_blink iv l w))
           = [\<lparr>target_pin = pin l, interval = iv, alive = True\<rparr>]"
    and "owns_blinks (fst (LED_start_blink iv l w)) (snd (LED_start_blink iv l w))"
    and "pin (fst (LED_start_blink iv l w)) = pin l"
    and "blinker (fst (LED_start_blink iv l w)) = Some (length (procs w))"
    and "procs (snd (LED_start_blink iv l w)) ! length (procs w)
           = \<lparr>target_pin = pin l, interval = iv, alive = True\<rparr>"
    and "gpio (snd (LED_start_blink iv l w)) = gpio w"
    and "trace (snd (LED_start_blink iv l w)) = trace w"
proof -
  let ?w1 = "case blinker l of Some i \<Rightarrow> terminate i w | None \<Rightarrow> w"
  let ?q = "\<lparr>target_pin = pin l, interval = iv, alive = True\<rparr>"
  have clear: "active_blinks (pin l) ?w1 = []" by (rule terminate_blinker_clears [OF assms])
  have len: "length (procs ?w1) = length (procs w)" by (simp split: option.splits)
  have res: "LED_start_blink iv l w
      = (l\<lparr>blinker := Some (length (procs w))\<rparr>, ?w1\<lparr>procs := procs ?w1 @ [?q]\<rparr>)"
    by (simp add: LED_start_blink_def Process_start_def Let_def len)
  from clear show "active_blinks (pin l) (snd (LED_start_blink iv l w)) = [?q]"
    by (simp add: res active_blinks_def)
  show "pin (fst (LED_start_blink iv l w)) = pin l" by (simp add: res)
  show "blinker (fst (LED_start_blink iv l w)) = Some (length (procs w))" by (simp add: res)
  show "procs (snd (LED_start_blink iv l w)) ! length (procs w) = ?q"
    by (simp add: res nth_append len)
  show "gpio (snd (LED_start_blink iv l w)) = gpio w" by (simp add: res split: option.splits)
  show "trace (snd (LED_start_blink iv l w)) = trace w" by (simp add: res split: option.splits)
  from clear have none: "\<And>j. j < length (procs w) \<Longrightarrow>
      \<not> (alive (procs ?w1 ! j) \<and> target_pin (procs ?w1 ! j) = pin l)"
    by (simp add: active_blinks_empty_iff len)
  show "owns_blinks (fst (LED_start_blink iv l w)) (snd (LED_start_blink iv l w))"
    unfolding res owns_blinks_def using none
    by (auto simp: nth_append len less_Suc_eq)
qed

lemma aux_off_result:
  "fst (aux_LED_off l w) = Inr ()"
  "procs (snd (aux_LED_off l w)) = procs w"
  "trace (snd (aux_LED_off l w)) = trace w"
  "gpio (snd (aux_LED_off l w)) (pin l) \<noteq> Some True"
  "p \<noteq> pin l \<Longrightarrow> gpio (snd (aux_LED_off l w)) p = gpio w p"
  by (auto simp: aux_LED_off_def GPIO_output_def split: option.splits)

lemma stop_blink_result:
  assumes "owns_blinks l w"
  shows "fst (aux_LED_stop_blink l w) = Inr ()"
    and "active_blinks (pin l) (snd (aux_LED_stop_blink l w)) = []"
    and "gpio (snd (aux_LED_stop_blink l w)) (pin l) \<noteq> Some True"
    and "trace (snd (aux_LED_stop_blink l w)) = trace w"
proof -
  let ?w1 = "case blinker l of Some i \<Rightarrow> terminate i w | None \<Rightarrow> w"
  show "fst (aux_LED_stop_blink l w) = Inr ()"
    by (simp add: aux_LED_stop_blink_def aux_off_result)
  show "gpio (snd (aux_LED_stop_blink l w)) (pin l) \<noteq> Some True"
    by (simp add: aux_LED_stop_blink_def aux_off_result)
  show "trace (snd (aux_LED_stop_blink l w)) = trace w"
    by (simp add: aux_LED_stop_blink_def aux_off_result split: option.splits)
  have "active_blinks (pin l) (snd (aux_LED_off l ?w1)) = active_blinks (pin l) ?w1"
    by (simp add: active_blinks_def aux_off_result)
  with terminate_blinker_clears [OF assms]
  show "active_blinks (pin l) (snd (aux_LED_stop_blink l w)) = []"
    by (simp add: aux_LED_stop_blink_def)
qed

lemma stop_blink_idle:
  assumes "owns_blinks l w" and "active_blinks (pin l) w = []"
  shows "procs (snd (aux_LED_stop_blink l w)) = procs w"
proof (cases "blinker l")
  case None
  then show ?thesis by (simp add: aux_LED_stop_blink_def aux_off_result)
next
  case (Some i)
  with assms(1) have i: "i < length (procs w)" "target_pin (procs w ! i) = pin l"
    by (auto simp: owns_blinks_def)
  with assms(2) have "\<not> alive (procs w ! i)" by (auto simp: active_blinks_empty_iff)
  then have "procs (terminate i w) = procs w"
    by (simp add: terminate_def dead_proc_unchanged)
  with Some show ?thesis by (simp add: aux_LED_stop_blink_def aux_off_result)
qed

text \<open>
  C6. On an LED that owns its blink tasks, \<^verbatim>\<open>start_blink\<close> with period \<open>i1\<close> and then
  with period \<open>i2\<close> leaves one running blink process on the pin, the one with period
  \<open>i2\<close>, and \<^verbatim>\<open>blinker\<close> refers to it. \<^verbatim>\<open>stop_blink\<close> after that returns normally, leaves
  no running blink process on the pin and the pin not driven high. \<^verbatim>\<open>stop_blink\<close> with
  no running blink process returns normally, changes no process and prints nothing, and
  leaves the pin not driven high.
\<close>

theorem blink_supersession:
  assumes "owns_blinks l w"
  shows "active_blinks (pin l) (snd (LED_start_blink i2 (fst (LED_start_blink i1 l w))
                                   (snd (LED_start_blink i1 l w))))
           = [\<lparr>target_pin = pin l, interval = i2, alive = True\<rparr>] \<and>
         (case blinker (fst (LED_start_blink i2 (fst (LED_start_blink i1 l w))
                               (snd (LED_start_blink i1 l w)))) of
            None \<Rightarrow> False
          | Some k \<Rightarrow>
              procs (snd (LED_start_blink i2 (fst (LED_start_blink i1 l w))
                            (snd (LED_start_blink i1 l w)))) ! k
                = \<lparr>target_pin = pin l, interval = i2, alive = True\<rparr>) \<and>
         fst (aux_LED_stop_blink
                (fst (LED_start_blink i2 (fst (LED_start_blink i1 l w)) (snd (LED_start_blink i1 l w))))
                (snd (LED_start_blink i2 (fst (LED_start_blink i1 l w)) (snd (LED_start_blink i1 l w)))))
           = Inr () \<and>
         active_blinks (pin l) (snd (aux_LED_stop_blink
                (fst (LED_start_blink i2 (fst (LED_start_blink i1 l w)) (snd (LED_start_blink i1 l w))))
                (snd (LED_start_blink i2 (fst (LED_start_blink i1 l w)) (snd (LED_start_blink i1 l w))))))
           = [] \<and>
         gpio (snd (aux_LED_stop_blink
                (fst (LED_start_blink i2 (fst (LED_start_blink i1 l w)) (snd (LED_start_blink i1 l w))))
                (snd (LED_start_blink i2 (fst (LED_start_blink i1 l w)) (snd (LED_start_blink i1 l w))))))
              (pin l) \<noteq> Some True \<and>
         (active_blinks (pin l) w = [] \<longrightarrow>
            fst (aux_LED_stop_blink l w) = Inr () \<and>
            procs (snd (aux_LED_stop_blink l w)) = procs w \<and>
            trace (snd (aux_LED_stop_blink l w)) = trace w \<and>
            gpio (snd (aux_LED_stop_blink l w)) (pin l) \<noteq> Some True)"
proof -
  let ?l1 = "fst (LED_start_blink i1 l w)" and ?w1 = "snd (LED_start_blink i1 l w)"
  let ?l2 = "fst (LED_start_blink i2 ?l1 ?w1)" and ?w2 = "snd (LED_start_blink i2 ?l1 ?w1)"
  have o1: "owns_blinks ?l1 ?w1" and p1: "pin ?l1 = pin l"
    using start_blink_result [OF assms] by simp_all
  have o2: "owns_blinks ?l2 ?w2" and p2: "pin ?l2 = pin l"
    and a2: "active_blinks (pin l) ?w2 = [\<lparr>target_pin = pin l, interval = i2, alive = True\<rparr>]"
    using start_blink_result [OF o1, of i2] p1 by simp_all
  have b2: "blinker ?l2 = Some (length (procs ?w1))"
    and q2: "procs ?w2 ! length (procs ?w1) = \<lparr>target_pin = pin l, interval = i2, alive = True\<rparr>"
    using start_blink_result [OF o1, of i2] p1 by simp_all
  note s3 = stop_blink_result [OF o2, unfolded p2]
  note s0 = stop_blink_result [OF assms]
  show ?thesis using a2 b2 q2 s3 s0 stop_blink_idle [OF assms] by simp
qed

text \<open>
  A new LED on pin 20: blink with period 1, then with period 2; and \<^verbatim>\<open>stop_blink\<close> on
  the new LED, which has no blink task.
\<close>

theorem blink_supersession_witness:
  "owns_blinks \<lparr>pin = 20, blinker = None\<rparr> (snd (aux_LED_init True 20 boot)) \<and>
   active_blinks 20
     (snd (LED_start_blink 2
             (fst (LED_start_blink 1 \<lparr>pin = 20, blinker = None\<rparr> (snd (aux_LED_init True 20 boot))))
             (snd (LED_start_blink 1 \<lparr>pin = 20, blinker = None\<rparr> (snd (aux_LED_init True 20 boot))))))
     = [\<lparr>target_pin = 20, interval = 2, alive = True\<rparr>] \<and>
   active_blinks 20 (snd (aux_LED_init True 20 boot)) = [] \<and>
   fst (aux_LED_stop_blink \<lparr>pin = 20, blinker = None\<rparr> (snd (aux_LED_init True 20 boot))) = Inr ()"
  using blink_supersession [of "\<lparr>pin = 20, blinker = None\<rparr>" "snd (aux_LED_init True 20 boot)" 2 1]
  by (simp add: owns_blinks_def active_blinks_def aux_LED_init_def GPIO_setup_out_def boot_def)

section \<open>The interrupt callback\<close>

text \<open>
  A dosimeter with a counts LED on pin 21, after \<^verbatim>\<open>cleanup()\<close>: the callback raises.
\<close>

theorem count_fault_counterexample:
  "fst (Dosimeter_count (frozen_clock 5)
          \<lparr>counts = [], accum_time = 3600, LED = Some \<lparr>pin = 21, blinker = None\<rparr>\<rparr>
          (Dosimeter_cleanup (snd (dos_LED_init 21 boot))))
     = Inl RuntimeError"
  by (simp add: Dosimeter_count_def dos_LED_flash_def LED_on_def GPIO_output_def
        Dosimeter_cleanup_def GPIO_cleanup_def print_def Let_def)

text \<open>
  C2, as the code has it. \<^verbatim>\<open>count\<close> has no handler. It returns normally when there is
  no LED or the LED's channel is set up, and it raises \<^verbatim>\<open>RuntimeError\<close> when the LED's
  channel is not set up: the fault of \<^verbatim>\<open>flash\<close> leaves \<^verbatim>\<open>count\<close> as it is. The event is
  appended before the flash, so it is in the window either way, and in the failing case
  the only thing printed is the line of the count.
\<close>

theorem count_has_no_handler:
  "fst (Dosimeter_count clock s w)
     = (case LED s of
          None \<Rightarrow> Inr ()
        | Some l \<Rightarrow> (case gpio w (pin l) of None \<Rightarrow> Inl RuntimeError | Some _ \<Rightarrow> Inr ())) \<and>
   counts (fst (snd (Dosimeter_count clock s w))) = counts s @ [clock 1] \<and>
   (case LED s of
      None \<Rightarrow> True
    | Some l \<Rightarrow>
        (case gpio w (pin l) of
           None \<Rightarrow> Dosimeter_count clock s w
                    = (Inl RuntimeError, s\<lparr>counts := counts s @ [clock 1]\<rparr>,
                       print (Count_at (clock 0)) w)
         | Some _ \<Rightarrow> True))"
  by (auto simp: Dosimeter_count_def dos_LED_flash_def dos_LED_off_def LED_on_def GPIO_output_def
        print_def sleep_def Let_def split: option.splits prod.splits sum.splits)

section \<open>The timer loop\<close>

lemma loop_only_sleeps:
  "running self \<Longrightarrow>
   DosimeterTimer_loop n self w = (self, w\<lparr>trace := trace w @ replicate n (Sleep 10)\<rparr>)"
proof (induction n arbitrary: w)
  case 0
  show ?case by simp
next
  case (Suc n)
  have "[Sleep 10] @ replicate n (Sleep 10) = replicate n (Sleep 10) @ [Sleep 10]"
    by (simp add: replicate_append_same)
  with Suc show ?case by (simp add: sleep_def replicate_append_same)
qed

text \<open>
  C4, what the code does. \<open>n\<close> passes of the loop of \<^verbatim>\<open>DosimeterTimer.start\<close> add \<open>n\<close>
  sleeps of 10 s to the trace and nothing else: the dosimeter and its window are not
  read or trimmed, nothing is counted or handed on, and \<^verbatim>\<open>DT\<close> is not used.
\<close>

theorem DosimeterTimer_start_only_sleeps:
  "DosimeterTimer_start n self w
     = (self\<lparr>running := True\<rparr>, w\<lparr>trace := trace w @ replicate n (Sleep 10)\<rparr>) \<and>
   dosimeter (fst (DosimeterTimer_start n self w)) = dosimeter self"
  by (simp add: DosimeterTimer_start_def loop_only_sleeps)

section \<open>Network status\<close>

lemma vprint_facts [simp]:
  "gpio (vprint s lv m w) = gpio w"
  "filter is_timing (trace (vprint s lv m w)) = filter is_timing (trace w)"
  by (simp_all add: vprint_def print_def)

lemma sleep_facts [simp]:
  "gpio (sleep d w) = gpio w"
  "filter is_timing (trace (sleep d w)) = filter is_timing (trace w) @ [Sleep d]"
  by (simp_all add: sleep_def)

lemma led_live_sleep: "led_live x (sleep d w) = led_live x w"
  by (cases x) (simp_all add: led_live_def)

lemma aux_off_live:
  "gpio w p \<noteq> None \<Longrightarrow> gpio (snd (aux_LED_off l w)) p \<noteq> None"
  by (auto simp: aux_LED_off_def GPIO_output_def split: option.splits)

lemma stop_blink_live:
  "gpio w p \<noteq> None \<Longrightarrow> gpio (snd (aux_LED_stop_blink l w)) p \<noteq> None"
  "fst (aux_LED_stop_blink l w) = Inr ()"
  "trace (snd (aux_LED_stop_blink l w)) = trace w"
  by (auto simp: aux_LED_stop_blink_def aux_off_live aux_off_result split: option.splits)

lemma on_live:
  "gpio w (pin l) \<noteq> None \<Longrightarrow> fst (LED_on l w) = Inr ()"
  "gpio w p \<noteq> None \<Longrightarrow> gpio (snd (LED_on l w)) p \<noteq> None"
  "trace (snd (LED_on l w)) = trace w"
  by (auto simp: LED_on_def GPIO_output_def split: option.splits)

lemma start_blink_keeps:
  "gpio (snd (LED_start_blink iv l w)) = gpio w"
  "trace (snd (LED_start_blink iv l w)) = trace w"
  "pin (fst (LED_start_blink iv l w)) = pin l"
  by (simp_all add: LED_start_blink_def Process_start_def Let_def split: option.splits)

lemma led_live_vprint: "led_live x (vprint s lv m w) = led_live x w"
  by (cases x) (simp_all add: led_live_def)

lemma update_down:
  assumes "a \<noteq> 0" and "led_live (led s) w"
  shows "\<exists>s1 w1. NetworkStatus_update a s w = (Inr (), s1, w1) \<and>
           is_up s1 = False \<and> hostname s1 = hostname s \<and>
           up_interval_s s1 = up_interval_s s \<and> down_interval_s s1 = down_interval_s s \<and>
           led_live (led s1) w1 \<and>
           filter is_timing (trace w1) = filter is_timing (trace w) @ [Ping (hostname s)]"
proof (cases "led s")
  case None
  with assms show ?thesis
    by (simp add: NetworkStatus_update_def NetworkStatus_ping_def Let_def led_live_def)
next
  case (Some l)
  let ?w = "w\<lparr>trace := trace w @ [Ping (hostname s)]\<rparr>"
  obtain l1 w1 where sb: "LED_start_blink (blink_period_s s) l ?w = (l1, w1)"
    by (cases "LED_start_blink (blink_period_s s) l ?w") auto
  from start_blink_keeps [of "blink_period_s s" l ?w] sb
  have k: "gpio w1 = gpio w" "trace w1 = trace ?w" "pin l1 = pin l" by simp_all
  from assms(1) Some sb
  have res: "NetworkStatus_update a s w
      = (Inr (), s\<lparr>is_up := False, led := Some l1\<rparr>,
         vprint (s\<lparr>is_up := False\<rparr>) 1 (Is_DOWN (hostname s)) w1)"
    by (simp add: NetworkStatus_update_def NetworkStatus_ping_def Let_def)
  from assms(2) Some k have "led_live (Some l1) w1" by (simp add: led_live_def)
  with k show ?thesis by (simp add: res led_live_vprint)
qed

lemma update_up:
  assumes "led_live (led s) w"
  shows "\<exists>s1 w1. NetworkStatus_update 0 s w = (Inr (), s1, w1) \<and>
           is_up s1 = True \<and> hostname s1 = hostname s \<and>
           up_interval_s s1 = up_interval_s s \<and> down_interval_s s1 = down_interval_s s \<and>
           led_live (led s1) w1 \<and>
           filter is_timing (trace w1) = filter is_timing (trace w) @ [Ping (hostname s)]"
proof (cases "led s")
  case None
  then show ?thesis
    by (simp add: NetworkStatus_update_def NetworkStatus_ping_def Let_def led_live_def)
next
  case (Some l)
  let ?w = "w\<lparr>trace := trace w @ [Ping (hostname s)]\<rparr>"
  from assms Some have live: "gpio ?w (pin l) \<noteq> None" by (simp add: led_live_def)
  obtain w1 where st: "aux_LED_stop_blink l ?w = (Inr (), w1)"
    using stop_blink_live(2) [of l ?w] by (cases "aux_LED_stop_blink l ?w") auto
  from stop_blink_live(1) [OF live, of l] stop_blink_live(3) [of l ?w] st
  have w1: "gpio w1 (pin l) \<noteq> None" "trace w1 = trace ?w" by simp_all
  define wb where "wb = (if blinker l \<noteq> None then w1 else ?w)"
  from live w1 have wb: "gpio wb (pin l) \<noteq> None" "trace wb = trace ?w"
    by (simp_all add: wb_def)
  obtain w2 where on: "LED_on l wb = (Inr (), w2)"
    using on_live(1) [OF wb(1)] by (cases "LED_on l wb") auto
  from on_live(2) [OF wb(1), of l] on_live(3) [of l wb] on wb(2)
  have w2: "gpio w2 (pin l) \<noteq> None" "trace w2 = trace ?w" by simp_all
  have res: "NetworkStatus_update 0 s w
      = (Inr (), s\<lparr>is_up := True\<rparr>, vprint (s\<lparr>is_up := True\<rparr>) 2 (Is_UP (hostname s)) w2)"
  proof (cases "blinker l")
    case None
    with \<open>led s = Some l\<close> on show ?thesis
      by (simp add: NetworkStatus_update_def NetworkStatus_ping_def Let_def wb_def)
  next
    case (Some i)
    with \<open>led s = Some l\<close> st on show ?thesis
      by (simp add: NetworkStatus_update_def NetworkStatus_ping_def Let_def wb_def)
  qed
  from Some w2(1) have "led_live (led s) w2" by (simp add: led_live_def)
  with w2(2) show ?thesis by (simp add: res led_live_vprint)
qed

lemma update_step:
  assumes "led_live (led s) w"
  shows "\<exists>s1 w1. NetworkStatus_update a s w = (Inr (), s1, w1) \<and>
           is_up s1 = (a = 0) \<and> hostname s1 = hostname s \<and>
           up_interval_s s1 = up_interval_s s \<and> down_interval_s s1 = down_interval_s s \<and>
           led_live (led s1) w1 \<and>
           filter is_timing (trace w1) = filter is_timing (trace w) @ [Ping (hostname s)]"
proof (cases "a = 0")
  case True
  with update_up [OF assms] show ?thesis by simp
next
  case False
  with update_down [OF False assms] show ?thesis by simp
qed

text \<open>What a run on the answers \<open>as\<close> pings and sleeps.\<close>

lemma do_pings_run:
  assumes "led_live (led s) w"
  shows "fst (NetworkStatus_do_pings as s w) = Inr () \<and>
         is_up (fst (snd (NetworkStatus_do_pings as s w)))
           = (if as = [] then is_up s else last as = 0) \<and>
         filter is_timing (trace (snd (snd (NetworkStatus_do_pings as s w))))
           = filter is_timing (trace w) @
             concat (map (\<lambda>a. [Ping (hostname s),
                                Sleep (if a = 0 then up_interval_s s else down_interval_s s)]) as)"
  using assms
proof (induction as arbitrary: s w)
  case Nil
  show ?case by simp
next
  case (Cons a as)
  from update_step [OF Cons.prems, of a] obtain s1 w1 where
    res: "NetworkStatus_update a s w = (Inr (), s1, w1)"
    and up: "is_up s1 = (a = 0)" and hn: "hostname s1 = hostname s"
    and ui: "up_interval_s s1 = up_interval_s s" and di: "down_interval_s s1 = down_interval_s s"
    and ll: "led_live (led s1) w1"
    and tr: "filter is_timing (trace w1) = filter is_timing (trace w) @ [Ping (hostname s)]"
    by blast
  define w2 where "w2 = sleep (if a = 0 then up_interval_s s else down_interval_s s) w1"
  have run: "NetworkStatus_do_pings (a # as) s w = NetworkStatus_do_pings as s1 w2"
    by (simp add: res up ui di w2_def)
  have live2: "led_live (led s1) w2" using ll by (simp add: w2_def led_live_sleep)
  have tr2: "filter is_timing (trace w2)
      = filter is_timing (trace w) @
        [Ping (hostname s), Sleep (if a = 0 then up_interval_s s else down_interval_s s)]"
    by (simp add: w2_def tr)
  from Cons.IH [OF live2, unfolded hn ui di up tr2] show ?case
    unfolding run by simp
qed

text \<open>
  C5. A \<^verbatim>\<open>NetworkStatus\<close> starts down. With the answers fail, fail, success, fail
  (a ping succeeds when its exit status is 0) the state after the four probes is down,
  down, up, down, and the loop pings and sleeps in this order: each probe is followed
  by a sleep of \<^verbatim>\<open>down_interval_s\<close> when it left the state down and of \<^verbatim>\<open>up_interval_s\<close>
  when it left it up, so each probe but the first comes after the sleep that the outcome
  before it decided; nothing is slept before the first. The LED, when one is given,
  has its channel set up, as every constructed LED has until \<^verbatim>\<open>cleanup\<close>.
\<close>

theorem liveness_scripted:
  assumes "f1 \<noteq> 0" and "f2 \<noteq> 0" and "f4 \<noteq> 0" and "led_live l w"
  shows "is_up (NetworkStatus_init h up down l vb) = False \<and>
         map (\<lambda>n. is_up (fst (snd (NetworkStatus_do_pings (take n [f1, f2, 0, f4])
                                      (NetworkStatus_init h up down l vb) w))))
             [1, 2, 3, 4]
           = [False, False, True, False] \<and>
         fst (NetworkStatus_do_pings [f1, f2, 0, f4] (NetworkStatus_init h up down l vb) w) = Inr () \<and>
         filter is_timing
           (trace (snd (snd (NetworkStatus_do_pings [f1, f2, 0, f4]
                               (NetworkStatus_init h up down l vb) w))))
           = filter is_timing (trace w) @
             [Ping h, Sleep down, Ping h, Sleep down, Ping h, Sleep up, Ping h, Sleep down]"
proof -
  let ?s = "NetworkStatus_init h up down l vb"
  have live: "led_live (led ?s) w" using assms(4) by (simp add: NetworkStatus_init_def)
  have f: "hostname ?s = h" "up_interval_s ?s = up" "down_interval_s ?s = down" "is_up ?s = False"
    by (simp_all add: NetworkStatus_init_def)
  note r = do_pings_run [OF live]
  have t: "take 1 [f1, f2, 0, f4] = [f1]" "take 2 [f1, f2, 0, f4] = [f1, f2]"
    "take 3 [f1, f2, 0, f4] = [f1, f2, 0]" "take 4 [f1, f2, 0, f4] = [f1, f2, 0, f4]"
    by simp_all
  from r [of "[f1]"] have r1: "is_up (fst (snd (NetworkStatus_do_pings [f1] ?s w))) = False"
    using assms(1) by simp
  from r [of "[f1, f2]"] have r2: "is_up (fst (snd (NetworkStatus_do_pings [f1, f2] ?s w))) = False"
    using assms(2) by simp
  from r [of "[f1, f2, 0]"] have r3: "is_up (fst (snd (NetworkStatus_do_pings [f1, f2, 0] ?s w))) = True"
    by simp
  from r [of "[f1, f2, 0, f4]"] assms(1-3) f
  have r4: "is_up (fst (snd (NetworkStatus_do_pings [f1, f2, 0, f4] ?s w))) = False"
    "fst (NetworkStatus_do_pings [f1, f2, 0, f4] ?s w) = Inr ()"
    "filter is_timing (trace (snd (snd (NetworkStatus_do_pings [f1, f2, 0, f4] ?s w))))
       = filter is_timing (trace w) @
         [Ping h, Sleep down, Ping h, Sleep down, Ping h, Sleep up, Ping h, Sleep down]"
    by simp_all
  show ?thesis
    by (simp only: list.map t r1 r2 r3 r4 f)
qed

text \<open>
  Exit statuses 1, 2, 0, 256 with the default intervals of 300 s and 5 s and an LED on
  pin 20.
\<close>

theorem liveness_scripted_witness:
  "(1::int) \<noteq> 0 \<and> (2::int) \<noteq> 0 \<and> (256::int) \<noteq> 0 \<and>
   led_live (Some \<lparr>pin = 20, blinker = None\<rparr>) (snd (aux_LED_init True 20 boot)) \<and>
   map (\<lambda>n. is_up (fst (snd (NetworkStatus_do_pings (take n [1, 2, 0, 256])
             (NetworkStatus_init ''dosenet.dhcp.lbl.gov'' 300 5 (Some \<lparr>pin = 20, blinker = None\<rparr>) 1)
             (snd (aux_LED_init True 20 boot))))))
       [1, 2, 3, 4]
     = [False, False, True, False] \<and>
   filter is_timing
     (trace (snd (snd (NetworkStatus_do_pings [1, 2, 0, 256]
             (NetworkStatus_init ''dosenet.dhcp.lbl.gov'' 300 5 (Some \<lparr>pin = 20, blinker = None\<rparr>) 1)
             (snd (aux_LED_init True 20 boot))))))
     = [Ping ''dosenet.dhcp.lbl.gov'', Sleep 5, Ping ''dosenet.dhcp.lbl.gov'', Sleep 5,
        Ping ''dosenet.dhcp.lbl.gov'', Sleep 300, Ping ''dosenet.dhcp.lbl.gov'', Sleep 5]"
proof -
  have a: "(1::int) \<noteq> 0" "(2::int) \<noteq> 0" "(256::int) \<noteq> 0" by simp_all
  have b: "led_live (Some \<lparr>pin = 20, blinker = None\<rparr>) (snd (aux_LED_init True 20 boot))"
    by (simp add: led_live_def aux_LED_init_def GPIO_setup_out_def)
  have c: "filter is_timing (trace (snd (aux_LED_init True 20 boot))) = []"
    by (simp add: aux_LED_init_def GPIO_setup_out_def boot_def)
  from liveness_scripted [OF a b, of "''dosenet.dhcp.lbl.gov''" 300 5 1] a b c
  show ?thesis by (simp only: append_Nil simp_thms)
qed

end
